theory Spec2Isabelle
  imports Main
begin

section \<open>Python values used by the redaction pipeline\<close>

text \<open>
  Python strings are modelled as HOL strings (lists of characters), so \<open>len\<close> is
  \<open>length\<close>, \<open>v[:2]\<close> is \<open>take 2 v\<close> and \<open>v[-2:]\<close> is \<open>drop (length v - 2) v\<close>
  (for a string shorter than two characters both slices return the whole string, as in
  Python). A Python \<open>dict\<close> is an association list in insertion order; its keys are
  distinct. The annotation \<open>Dict[str, List[str]]\<close> of the data processor is taken at its
  word: a category map holds lists of strings.
\<close>

type_synonym category_map = "(string \<times> string list) list"

datatype py_error =
    ValueError
  | AttributeError
  | JSONDecodeError
  | Timeout
  | RequestException
  | FileNotFoundError string
  | OtherException string
  | WrappedException string

text \<open>\<open>d[k] = v\<close>: an existing key keeps its position, a new key goes last.\<close>

fun dict_set :: "'k \<Rightarrow> 'v \<Rightarrow> ('k \<times> 'v) list \<Rightarrow> ('k \<times> 'v) list" where
  "dict_set k v [] = [(k, v)]"
| "dict_set k v ((k', v') # rest) =
     (if k' = k then (k, v) # rest else (k', v') # dict_set k v rest)"

text \<open>\<open>c * n\<close> for a one-character string \<open>c\<close> and an integer \<open>n\<close>: empty when
  \<open>n\<close> is not positive.\<close>

definition py_repeat :: "char \<Rightarrow> int \<Rightarrow> string" where
  "py_repeat c n = replicate (nat n) c"

definition py_len :: "'a list \<Rightarrow> int" where
  "py_len xs = int (length xs)"

text \<open>\<open>s.split(c, 1)\<close>: at most one split, at the first occurrence of \<open>c\<close>.\<close>

definition split1 :: "char \<Rightarrow> string \<Rightarrow> string list" where
  "split1 c s =
     (if c \<in> set s then [takeWhile (\<lambda>x. x \<noteq> c) s, tl (dropWhile (\<lambda>x. x \<noteq> c) s)]
      else [s])"

text \<open>\<open>s.rsplit(c, 1)\<close>: at most one split, at the last occurrence of \<open>c\<close>.\<close>

definition rsplit1 :: "char \<Rightarrow> string \<Rightarrow> string list" where
  "rsplit1 c s =
     (if c \<in> set s
      then [rev (tl (dropWhile (\<lambda>x. x \<noteq> c) (rev s))), rev (takeWhile (\<lambda>x. x \<noteq> c) (rev s))]
      else [s])"

text \<open>Tuple unpacking \<open>a, b = xs\<close> raises \<open>ValueError\<close> unless \<open>xs\<close> has exactly
  two elements.\<close>

definition unpack2 :: "'a list \<Rightarrow> py_error + ('a \<times> 'a)" where
  "unpack2 xs = (case xs of [a, b] \<Rightarrow> Inr (a, b) | _ \<Rightarrow> Inl ValueError)"

section \<open>Value Normalizer: \<open>post_process_sensitive_data\<close> (data\_processor.py)\<close>

text \<open>The first loop: \<open>all_values.extend(values)\<close> for every category, in the
  iteration order of the dict. The values of a category map are lists, so the test
  \<open>isinstance(values, list)\<close> is true.\<close>

fun extend_all :: "category_map \<Rightarrow> string list \<Rightarrow> string list" where
  "extend_all [] all_values = all_values"
| "extend_all ((category, vals) # rest) all_values = extend_all rest (all_values @ vals)"

text \<open>The second loop, with its two accumulators \<open>seen\<close> and \<open>unique_values\<close>.
  A string is falsy exactly when it is empty.\<close>

fun unique_loop :: "string list \<Rightarrow> string set \<Rightarrow> string list \<Rightarrow> string list" where
  "unique_loop [] seen unique_values = unique_values"
| "unique_loop (val # rest) seen unique_values =
     (if val \<noteq> [] \<and> val \<notin> seen
      then unique_loop rest (insert val seen) (unique_values @ [val])
      else unique_loop rest seen unique_values)"

definition post_process_sensitive_data :: "category_map \<Rightarrow> string list" where
  "post_process_sensitive_data sensitive_data =
     unique_loop (extend_all sensitive_data []) {} []"

section \<open>Masking Reporter: \<open>mask_sensitive_data\<close> (data\_processor.py)\<close>

definition star :: char where
  "star = CHR ''*''"

text \<open>The expression the email branch uses for the user name and again for the domain
  name: all asterisks up to length 2, otherwise the first two characters and asterisks.\<close>

definition mask_head :: "string \<Rightarrow> string" where
  "mask_head s =
     (if py_len s \<le> 2 then py_repeat star (py_len s)
      else take 2 s @ py_repeat star (py_len s - 2))"

text \<open>The body of the \<open>try\<close> block of the email branch.\<close>

definition email_mask_try :: "string \<Rightarrow> py_error + string" where
  "email_mask_try v =
     (case unpack2 (split1 CHR ''@'' v) of
        Inl e \<Rightarrow> Inl e
      | Inr (username, domain) \<Rightarrow>
          (let masked_username = mask_head username;
               domain_parts = rsplit1 CHR ''.'' domain
           in if length domain_parts = 2
              then (case unpack2 domain_parts of
                      Inl e \<Rightarrow> Inl e
                    | Inr (domain_name, tld) \<Rightarrow>
                        Inr (masked_username @ ''@'' @ mask_head domain_name @ ''.'' @ tld))
              else Inr (masked_username @ ''@'' @ take 2 domain @ ''***'')))"

text \<open>The handler of the bare \<open>except:\<close> clause of the email branch.\<close>

definition email_mask_except :: "string \<Rightarrow> string" where
  "email_mask_except v =
     take 2 v @ py_repeat star (py_len v - 4) @ drop (length v - 2) v"

text \<open>The \<open>try\<close> statement of the email branch: the result of the body when it
  returns, the handler's value when it raises.\<close>

definition email_branch :: "py_error + string \<Rightarrow> string \<Rightarrow> string" where
  "email_branch body v =
     (case body of Inr masked_value \<Rightarrow> masked_value | Inl e \<Rightarrow> email_mask_except v)"

text \<open>The \<open>elif\<close>/\<open>else\<close> branches ("General masking: keep first 2 and last 2
  chars").\<close>

definition generic_mask :: "string \<Rightarrow> string" where
  "generic_mask v =
     (if py_len v \<le> 4 then py_repeat star (py_len v)
      else take 2 v @ py_repeat star (py_len v - 4) @ drop (length v - 2) v)"

text \<open>The body of the loop over the values of a category, for one value. The values of
  a category map are strings, so the test \<open>not isinstance(value, str)\<close> is false and only
  the length test of the first branch remains.\<close>

definition mask_value :: "string \<Rightarrow> string" where
  "mask_value v =
     (if py_len v < 3 then v
      else if CHR ''@'' \<in> set v \<and> CHR ''.'' \<in> set v
      then email_branch (email_mask_try v) v
      else generic_mask v)"

fun mask_loop :: "category_map \<Rightarrow> category_map \<Rightarrow> category_map" where
  "mask_loop [] masked_data = masked_data"
| "mask_loop ((category, vals) # rest) masked_data =
     mask_loop rest (dict_set category (map mask_value vals) masked_data)"

definition mask_sensitive_data :: "category_map \<Rightarrow> category_map" where
  "mask_sensitive_data sensitive_data = mask_loop sensitive_data []"

section \<open>User overrides in \<open>redact_pdf_custom\<close> (server.py, "Applying User Preferences")\<close>

text \<open>
  \<open>str.lower\<close> is a library function and a parameter \<open>lower\<close> of the model: what is
  proved of the exclusion step holds for every such function. \<open>py_lower\<close> is \<open>str.lower\<close>
  on the code points a character of the model can hold (0 to 255): the letters \<open>A\<close> to
  \<open>Z\<close> and the capital letters from U+00C0 to U+00DE, the multiplication sign U+00D7
  apart, move up by 32; every other character stays.
\<close>

definition char_lower :: "char \<Rightarrow> char" where
  "char_lower c =
     (if (65 \<le> (of_char c :: nat) \<and> (of_char c :: nat) \<le> 90) \<or>
         (192 \<le> (of_char c :: nat) \<and> (of_char c :: nat) \<le> 222 \<and> (of_char c :: nat) \<noteq> 215)
      then char_of ((of_char c :: nat) + 32) else c)"

definition py_lower :: "string \<Rightarrow> string" where
  "py_lower s = map char_lower s"

text \<open>"Remove excluded items (case-insensitive)". An absent or empty \<open>exclude_items\<close>
  leaves the list as it is. The counters \<open>excluded_count\<close> and \<open>included_count\<close> only
  feed the report and are left out.\<close>

definition exclude_step ::
  "(string \<Rightarrow> string) \<Rightarrow> string list \<Rightarrow> string list \<Rightarrow> string list" where
  "exclude_step lower sensitive_values exclude_items =
     (if exclude_items \<noteq> []
      then (let exclude_lower = map lower exclude_items
            in filter (\<lambda>v. lower v \<notin> set exclude_lower) sensitive_values)
      else sensitive_values)"

text \<open>"Add included items": the loop over \<open>include_items\<close>, appending to the list it
  tests membership in.\<close>

fun include_loop :: "string list \<Rightarrow> string list \<Rightarrow> string list" where
  "include_loop [] sensitive_values = sensitive_values"
| "include_loop (item # rest) sensitive_values =
     include_loop rest
       (if item \<noteq> [] \<and> item \<notin> set sensitive_values
        then sensitive_values @ [item] else sensitive_values)"

definition include_step :: "string list \<Rightarrow> string list \<Rightarrow> string list" where
  "include_step sensitive_values include_items =
     (if include_items \<noteq> [] then include_loop include_items sensitive_values
      else sensitive_values)"

definition apply_overrides ::
  "(string \<Rightarrow> string) \<Rightarrow> string list \<Rightarrow> string list \<Rightarrow> string list \<Rightarrow> string list" where
  "apply_overrides lower sensitive_values exclude_items include_items =
     include_step (exclude_step lower sensitive_values exclude_items) include_items"

section \<open>Sensitive-Span Detector: validation (ollama\_llm.py)\<close>

text \<open>
  The values \<open>json.loads\<close> and \<open>response.json()\<close> produce. A float is represented by the
  two observations the code makes of it: its truth value (false exactly for zero) and
  its \<open>str\<close> form.
\<close>

datatype pyval =
    PNone
  | PBool bool
  | PInt int
  | PFloat bool string
  | PStr string
  | PList "pyval list"
  | PDict "(string \<times> pyval) list"

fun py_truthy :: "pyval \<Rightarrow> bool" where
  "py_truthy PNone = False"
| "py_truthy (PBool b) = b"
| "py_truthy (PInt i) = (i \<noteq> 0)"
| "py_truthy (PFloat nonzero repr) = nonzero"
| "py_truthy (PStr s) = (s \<noteq> [])"
| "py_truthy (PList xs) = (xs \<noteq> [])"
| "py_truthy (PDict d) = (d \<noteq> [])"

text \<open>\<open>isinstance(item, (str, int, float))\<close>; \<open>bool\<close> is a subclass of \<open>int\<close>.\<close>

fun is_str_int_float :: "pyval \<Rightarrow> bool" where
  "is_str_int_float (PStr s) = True"
| "is_str_int_float (PInt i) = True"
| "is_str_int_float (PBool b) = True"
| "is_str_int_float (PFloat nonzero repr) = True"
| "is_str_int_float _ = False"

definition digit_char :: "nat \<Rightarrow> char" where
  "digit_char d = char_of (48 + d)"

fun str_nat :: "nat \<Rightarrow> string" where
  "str_nat n = (if n < 10 then [digit_char n] else str_nat (n div 10) @ [digit_char (n mod 10)])"

definition str_int :: "int \<Rightarrow> string" where
  "str_int i = (if i < 0 then CHR ''-'' # str_nat (nat (- i)) else str_nat (nat i))"

text \<open>\<open>str(item)\<close> for the items the comprehension keeps.\<close>

fun py_str :: "pyval \<Rightarrow> string" where
  "py_str (PStr s) = s"
| "py_str (PInt i) = str_int i"
| "py_str (PBool b) = (if b then ''True'' else ''False'')"
| "py_str (PFloat nonzero repr) = repr"
| "py_str PNone = ''None''"

text \<open>\<open>data.get(key, dflt)\<close>.\<close>

definition dict_get :: "(string \<times> pyval) list \<Rightarrow> string \<Rightarrow> pyval \<Rightarrow> pyval" where
  "dict_get data key dflt = (case map_of data key of Some v \<Rightarrow> v | None \<Rightarrow> dflt)"

definition required_keys :: "string list" where
  "required_keys =
     [''names'', ''emails'', ''phones'', ''addresses'', ''ids'',
      ''cards'', ''dobs'', ''medical'', ''financial'', ''other_pii'']"

text \<open>The body of the loop of \<open>_validate_structure\<close> for one value: a list is
  filtered and its items converted, a string is wrapped when it is not empty, anything
  else gives the empty list.\<close>

fun validate_value :: "pyval \<Rightarrow> string list" where
  "validate_value (PList items) =
     [py_str item. item \<leftarrow> items, py_truthy item \<and> is_str_int_float item]"
| "validate_value (PStr s) = (if s \<noteq> [] then [s] else [])"
| "validate_value _ = []"

fun validate_loop :: "string list \<Rightarrow> (string \<times> pyval) list \<Rightarrow> category_map \<Rightarrow> category_map" where
  "validate_loop [] data validated = validated"
| "validate_loop (key # rest) data validated =
     validate_loop rest data
       (dict_set key (validate_value (dict_get data key (PList []))) validated)"

definition validate_structure :: "(string \<times> pyval) list \<Rightarrow> category_map" where
  "validate_structure data = validate_loop required_keys data []"

definition empty_structure :: category_map where
  "empty_structure =
     [(''names'', []), (''emails'', []), (''phones'', []), (''addresses'', []), (''ids'', []),
      (''cards'', []), (''dobs'', []), (''medical'', []), (''financial'', []),
      (''other_pii'', [])]"

section \<open>Sensitive-Span Detector: request and parsing (ollama\_llm.py)\<close>

text \<open>
  The detector talks to the inference endpoint through \<open>requests.post\<close>, reads the
  answer with \<open>response.json()\<close>, \<open>json.loads\<close>, \<open>re.search\<close> and \<open>re.sub\<close>, and
  writes its diagnostics with \<open>print\<close>. These library calls are parameters of the
  model: every property below holds whatever they return. A call that raises returns
  \<open>Inl\<close> of the exception. A \<open>print\<close> call is named by the text of its argument in the
  source; \<open>console_print\<close> gives the exception it raises, or \<open>None\<close> when it succeeds.
\<close>

datatype http_response =
  Response (status_code: nat) (json_body: "py_error + pyval")

record pylib =
  requests_post :: "string \<Rightarrow> py_error + http_response"
  json_loads :: "string \<Rightarrow> py_error + pyval"
  search_code_block :: "string \<Rightarrow> string option"
  search_json_object :: "string \<Rightarrow> string option"
  sub_trailing_commas :: "string \<Rightarrow> string"
  sub_quoted_keys :: "string \<Rightarrow> string"
  sub_quoted_values :: "string \<Rightarrow> string"
  console_print :: "string \<Rightarrow> py_error option"

text \<open>\<open>print(message)\<close> followed by the rest of the block: when the call raises, the
  rest is not run.\<close>

definition print_then :: "pylib \<Rightarrow> string \<Rightarrow> py_error + 'a \<Rightarrow> py_error + 'a" where
  "print_then lib message rest =
     (case console_print lib message of Some e \<Rightarrow> Inl e | None \<Rightarrow> rest)"

text \<open>\<open>str.strip()\<close> on the code points a character of the model can hold: the
  white space is U+0009 to U+000D, U+001C to U+0020, U+0085 and U+00A0.\<close>

definition is_space :: "char \<Rightarrow> bool" where
  "is_space c =
     ((9 \<le> (of_char c :: nat) \<and> (of_char c :: nat) \<le> 13) \<or>
      (28 \<le> (of_char c :: nat) \<and> (of_char c :: nat) \<le> 32) \<or>
      (of_char c :: nat) = 133 \<or> (of_char c :: nat) = 160)"

definition py_strip :: "string \<Rightarrow> string" where
  "py_strip s = rev (dropWhile is_space (rev (dropWhile is_space s)))"

text \<open>\<open>s.find(c)\<close> and \<open>s.rfind(c)\<close>: the index of the first and of the last occurrence,
  \<open>-1\<close> when there is none; \<open>s[a:b]\<close> for indices that are not negative.\<close>

definition py_find :: "char \<Rightarrow> string \<Rightarrow> int" where
  "py_find c s =
     (if c \<in> set s then int (length (takeWhile (\<lambda>x. x \<noteq> c) s)) else - 1)"

definition py_rfind :: "char \<Rightarrow> string \<Rightarrow> int" where
  "py_rfind c s =
     (if c \<in> set s
      then int (length s) - 1 - int (length (takeWhile (\<lambda>x. x \<noteq> c) (rev s))) else - 1)"

definition py_slice :: "string \<Rightarrow> int \<Rightarrow> int \<Rightarrow> string" where
  "py_slice s a b = take (nat (b - a)) (drop (nat a) s)"

definition fix_json_formatting :: "pylib \<Rightarrow> string \<Rightarrow> string" where
  "fix_json_formatting lib json_str =
     (let s1 = sub_trailing_commas lib json_str;
          s2 = sub_quoted_keys lib s1;
          s3 = sub_quoted_values lib s2;
          first_brace = py_find CHR ''{'' s3;
          last_brace = py_rfind CHR ''}'' s3
      in if first_brace \<noteq> - 1 \<and> last_brace \<noteq> - 1
         then py_slice s3 first_brace (last_brace + 1) else s3)"

text \<open>Steps 4 and 5 of \<open>_extract_and_fix_json\<close>: repair the extracted text, parse it,
  validate an object and answer the empty structure for any other parsed value.\<close>

definition parse_fixed :: "pylib \<Rightarrow> string \<Rightarrow> py_error + category_map" where
  "parse_fixed lib json_str =
     (case json_loads lib (fix_json_formatting lib json_str) of
        Inl e \<Rightarrow> Inl e
      | Inr (PDict data) \<Rightarrow> Inr (validate_structure data)
      | Inr _ \<Rightarrow>
          print_then lib ''[WARNING] LLM returned non-dict JSON'' (Inr empty_structure))"

text \<open>Steps 2 and 3: the fenced code block, else the first brace-delimited span, else the
  empty structure.\<close>

definition extract_and_parse :: "pylib \<Rightarrow> string \<Rightarrow> py_error + category_map" where
  "extract_and_parse lib response_text =
     (case search_code_block lib response_text of
        Some json_str \<Rightarrow> parse_fixed lib json_str
      | None \<Rightarrow>
          (case search_json_object lib response_text of
             Some json_str \<Rightarrow> parse_fixed lib json_str
           | None \<Rightarrow>
               print_then lib ''[WARNING] No JSON object found in LLM response''
                 (print_then lib ''[INFO] Response preview: {response_text[:300]}...''
                    (Inr empty_structure))))"

text \<open>The body of the outer \<open>try\<close> of \<open>_extract_and_fix_json\<close>. The inner \<open>try\<close>
  around the direct parse catches \<open>JSONDecodeError\<close> only; \<open>.strip()\<close> on a value that is
  not a string raises \<open>AttributeError\<close>.\<close>

definition extract_body :: "pylib \<Rightarrow> pyval \<Rightarrow> py_error + category_map" where
  "extract_body lib response_text =
     (case response_text of
        PStr text \<Rightarrow>
          (case json_loads lib (py_strip text) of
             Inr (PDict data) \<Rightarrow> Inr (validate_structure data)
           | Inr _ \<Rightarrow> extract_and_parse lib text
           | Inl e \<Rightarrow> (if e = JSONDecodeError then extract_and_parse lib text else Inl e))
      | _ \<Rightarrow> Inl AttributeError)"

text \<open>The two handlers of \<open>_extract_and_fix_json\<close>: each prints and returns the empty
  structure; an exception raised by a \<open>print\<close> of a handler leaves the function.\<close>

definition extract_and_fix_json :: "pylib \<Rightarrow> pyval \<Rightarrow> py_error + category_map" where
  "extract_and_fix_json lib response_text =
     (case extract_body lib response_text of
        Inr validated \<Rightarrow> Inr validated
      | Inl e \<Rightarrow>
          (if e = JSONDecodeError
           then print_then lib ''[WARNING] JSON parse error: {e}''
                  (print_then lib ''[INFO] Response preview: {response_text[:200]}...''
                     (Inr empty_structure))
           else print_then lib ''[ERROR] Unexpected error in JSON extraction: {e}''
                  (Inr empty_structure)))"

text \<open>The body of the \<open>try\<close> of \<open>get_sensitive_data\<close>. \<open>result.get\<close> on a value that is
  not a dict raises \<open>AttributeError\<close>.\<close>

definition get_sensitive_data_body :: "pylib \<Rightarrow> string \<Rightarrow> py_error + category_map" where
  "get_sensitive_data_body lib text =
     (case requests_post lib text of
        Inl e \<Rightarrow> Inl e
      | Inr response \<Rightarrow>
          (if status_code response \<noteq> 200
           then print_then lib ''[ERROR] Ollama error: {response.status_code}''
                  (print_then lib ''[ERROR] Response: {response.text}'' (Inr empty_structure))
           else (case json_body response of
                   Inl e \<Rightarrow> Inl e
                 | Inr (PDict result) \<Rightarrow>
                     (let response_text = dict_get result ''response'' (PStr [])
                      in (case response_text of
                            PDict data \<Rightarrow> Inr (validate_structure data)
                          | _ \<Rightarrow> extract_and_fix_json lib response_text))
                 | Inr _ \<Rightarrow> Inl AttributeError)))"

text \<open>The messages of the three handlers of \<open>get_sensitive_data\<close>.\<close>

definition timeout_message :: string where
  "timeout_message = ''[ERROR] LLM request timed out - try a faster model or smaller document''"

definition connection_message :: string where
  "connection_message = ''[ERROR] Connection error: {e}''"

definition unexpected_message :: string where
  "unexpected_message = ''[ERROR] Unexpected error in get_sensitive_data: {e}''"

text \<open>The three handlers: \<open>Timeout\<close>, \<open>RequestException\<close>, \<open>Exception\<close>. Each prints
  and returns the empty structure; an exception raised by the \<open>print\<close> of a handler
  reaches the caller.\<close>

definition get_sensitive_data :: "pylib \<Rightarrow> string \<Rightarrow> py_error + category_map" where
  "get_sensitive_data lib text =
     (case get_sensitive_data_body lib text of
        Inr sensitive_data \<Rightarrow> Inr sensitive_data
      | Inl e \<Rightarrow>
          (if e = Timeout then print_then lib timeout_message (Inr empty_structure)
           else if e = RequestException
           then print_then lib connection_message (Inr empty_structure)
           else print_then lib unexpected_message (Inr empty_structure)))"

text \<open>The \<open>print\<close> of each of the three handlers succeeds.\<close>

definition handler_prints_succeed :: "pylib \<Rightarrow> bool" where
  "handler_prints_succeed lib \<longleftrightarrow>
     console_print lib timeout_message = None \<and>
     console_print lib connection_message = None \<and>
     console_print lib unexpected_message = None"

section \<open>Text Extractor: \<open>get_pdf_text\<close> (pdf\_extractor.py)\<close>

text \<open>
  A page gives its text (or raises, with a message) and answers searches with the
  bounding regions of the occurrences. A path of the file system holds nothing, a file
  that \<open>fitz.open\<close> refuses (with a message), or a document. The documents that are open
  are kept in a list of paths: \<open>fitz.open\<close> adds the path, \<open>doc.close()\<close> removes it.
\<close>

record 'r pdf_page =
  number :: nat
  get_text :: "string + string"
  search_for :: "string \<Rightarrow> 'r list"

datatype 'r pdf_file = Unreadable string | Document "'r pdf_page list"

type_synonym 'r filesystem = "string \<Rightarrow> 'r pdf_file option"

datatype text_result = AllText string | PageTexts "string list"

fun texts_loop :: "'r pdf_page list \<Rightarrow> string list \<Rightarrow> string + string list" where
  "texts_loop [] texts = Inr texts"
| "texts_loop (pg # rest) texts =
     (case get_text pg of
        Inl msg \<Rightarrow> Inl msg
      | Inr page_text \<Rightarrow> texts_loop rest (texts @ [page_text]))"

fun text_loop :: "'r pdf_page list \<Rightarrow> string \<Rightarrow> string + string" where
  "text_loop [] text = Inr text"
| "text_loop (pg # rest) text =
     (case get_text pg of
        Inl msg \<Rightarrow> Inl msg
      | Inr page_text \<Rightarrow> text_loop rest (text @ page_text))"

definition get_pdf_text ::
  "'r filesystem \<Rightarrow> string \<Rightarrow> bool \<Rightarrow> string list \<Rightarrow> (py_error + text_result) \<times> string list" where
  "get_pdf_text fs file_path page_chunks open_docs =
     (case fs file_path of
        None \<Rightarrow> (Inl (FileNotFoundError (''PDF file not found: '' @ file_path)), open_docs)
      | Some (Unreadable msg) \<Rightarrow>
          (Inl (WrappedException (''Error processing PDF: '' @ msg)), open_docs)
      | Some (Document doc) \<Rightarrow>
          (let opened = open_docs @ [file_path]
           in if page_chunks
              then (case texts_loop doc [] of
                      Inl msg \<Rightarrow> (Inl (WrappedException (''Error processing PDF: '' @ msg)), opened)
                    | Inr texts \<Rightarrow> (Inr (PageTexts texts), remove1 file_path opened))
              else (case text_loop doc [] of
                      Inl msg \<Rightarrow> (Inl (WrappedException (''Error processing PDF: '' @ msg)), opened)
                    | Inr text \<Rightarrow> (Inr (AllText text), remove1 file_path opened))))"

section \<open>Redaction Engine: \<open>apply_redactions\<close> (pdf\_redactor.py)\<close>

record page_stats =
  page :: nat
  number_of_redactions :: nat

text \<open>The summary, with the annotations the run puts on the two copies of the document:
  per page, the highlight annotations on the preview copy and the redaction regions
  registered on the removal copy, which \<open>page_redacted.apply_redactions()\<close> commits at the
  end of the page.\<close>

record 'r engine_state =
  total_pages :: nat
  redacted_pages :: "page_stats list"
  total_redactions :: nat
  highlighted :: "'r list list"
  redacted :: "'r list list"

text \<open>\<open>for inst in text_instances\<close>.\<close>

fun instance_loop :: "'r list \<Rightarrow> 'r list \<times> 'r list \<Rightarrow> 'r list \<times> 'r list" where
  "instance_loop [] (highlights, redactions) = (highlights, redactions)"
| "instance_loop (inst # rest) (highlights, redactions) =
     instance_loop rest (highlights @ [inst], redactions @ [inst])"

text \<open>\<open>for sensitive_value in sensitive_values\<close>, on one page.\<close>

fun value_loop ::
  "'r pdf_page \<Rightarrow> string list \<Rightarrow> nat \<times> 'r list \<times> 'r list \<Rightarrow> nat \<times> 'r list \<times> 'r list" where
  "value_loop page_redacted [] st = st"
| "value_loop page_redacted (sensitive_value # rest) (n, highlights, redactions) =
     (if sensitive_value = [] \<or> length sensitive_value < 2
      then value_loop page_redacted rest (n, highlights, redactions)
      else (let text_instances = search_for page_redacted sensitive_value;
                (highlights', redactions') =
                  instance_loop text_instances (highlights, redactions);
                n' = (if text_instances \<noteq> [] then n + length text_instances else n)
            in value_loop page_redacted rest (n', highlights', redactions')))"

text \<open>The loop over \<open>zip(doc_redacted, doc_highlighted)\<close>.\<close>

fun page_loop ::
  "('r pdf_page \<times> 'r pdf_page) list \<Rightarrow> string list \<Rightarrow> 'r engine_state \<Rightarrow> 'r engine_state" where
  "page_loop [] sensitive_values st = st"
| "page_loop ((page_redacted, page_highlighted) # rest) sensitive_values st =
     (let (n, highlights, redactions) = value_loop page_redacted sensitive_values (0, [], []);
          stats = \<lparr>page = number page_redacted + 1, number_of_redactions = n\<rparr>
      in page_loop rest sensitive_values
           (st\<lparr>redacted_pages := redacted_pages st @ [stats],
               total_redactions := total_redactions st + n,
               highlighted := highlighted st @ [highlights],
               redacted := redacted st @ [redactions]\<rparr>))"

text \<open>Both copies are opened from the same path, so they hold the same pages.\<close>

definition apply_redactions :: "'r pdf_page list \<Rightarrow> string list \<Rightarrow> 'r engine_state" where
  "apply_redactions doc sensitive_values =
     (let doc_redacted = doc; doc_highlighted = doc
      in page_loop (zip doc_redacted doc_highlighted) sensitive_values
           \<lparr>total_pages = length doc_redacted, redacted_pages = [], total_redactions = 0,
            highlighted = [], redacted = []\<rparr>)"

text \<open>The occurrences the claims speak of: for the literals of at least two characters,
  in the order of the list, the regions the search finds on the page.\<close>

definition occurrences :: "'r pdf_page \<Rightarrow> string list \<Rightarrow> 'r list" where
  "occurrences pg literals =
     concat (map (search_for pg) (filter (\<lambda>v. 2 \<le> length v) literals))"

section \<open>The \<open>redact_pdf\<close> tool (server.py)\<close>

text \<open>
  The tool's answer is a JSON object: one with an \<open>error\<close> key and no \<open>status\<close>, one with
  status \<open>no_sensitive_data\<close>, or one with status \<open>success\<close>. The outermost handler turns
  an exception into an error answer. Progress tracking, base64 transport and the opening
  of viewers are left out, and the first error message is shortened. The artifacts are the
  files the Redaction Engine saves.
\<close>

datatype tool_result =
    ErrorResult string
  | CaughtException py_error
  | NoSensitiveData string
  | Success nat nat category_map

datatype artifact = RedactedPdf string | HighlightedPdf string

record 'r tool_env =
  llm :: pylib
  check_connection :: bool
  files :: "'r filesystem"

text \<open>Steps 6 to 9 of \<open>redact_pdf\<close>, from the detector's result on.\<close>

definition redact_detected ::
  "'r tool_env \<Rightarrow> string \<Rightarrow> category_map \<Rightarrow> tool_result \<times> artifact list" where
  "redact_detected env pdf_path sensitive_data =
     (if list_all (\<lambda>(k, v). length v = 0) sensitive_data
      then (NoSensitiveData ''No sensitive data detected, nothing to redact'', [])
      else (let sensitive_values = post_process_sensitive_data sensitive_data
            in if length sensitive_values = 0
               then (NoSensitiveData ''No sensitive data to redact after processing'', [])
               else (case files env pdf_path of
                       Some (Document doc) \<Rightarrow>
                         (let st = apply_redactions doc sensitive_values;
                              masked_data = mask_sensitive_data sensitive_data
                          in (Success (total_redactions st) (total_pages st) masked_data,
                              [RedactedPdf pdf_path, HighlightedPdf pdf_path]))
                     | _ \<Rightarrow> (CaughtException (OtherException ''cannot open document''), []))))"

text \<open>Step 5: the detector's call and the check "if LLM actually returned data or if it
  failed silently".\<close>

definition redact_detect ::
  "'r tool_env \<Rightarrow> string \<Rightarrow> string \<Rightarrow> tool_result \<times> artifact list" where
  "redact_detect env pdf_path text =
     (case get_sensitive_data (llm env) text of
        Inl e \<Rightarrow> (CaughtException e, [])
      | Inr sensitive_data \<Rightarrow>
          (if length sensitive_data = 0
           then (ErrorResult ''LLM failed to analyze the document. Please check Ollama logs.'', [])
           else redact_detected env pdf_path sensitive_data))"

text \<open>Steps 2 to 4: the connection check, the input checks and the text extraction.
  Called without \<open>page_chunks\<close>, the extractor returns one string; the branch for a list
  of page texts is never taken.\<close>

definition redact_pdf :: "'r tool_env \<Rightarrow> string option \<Rightarrow> tool_result \<times> artifact list" where
  "redact_pdf env pdf_path_arg =
     (if \<not> check_connection env
      then (ErrorResult ''Cannot connect to Ollama. Make sure it is running'', [])
      else (case pdf_path_arg of
              None \<Rightarrow> (ErrorResult ''Either pdf_path or pdf_base64 must be provided'', [])
            | Some pdf_path \<Rightarrow>
                (if pdf_path = []
                 then (ErrorResult ''Either pdf_path or pdf_base64 must be provided'', [])
                 else if files env pdf_path = None
                 then (ErrorResult (''PDF file not found: '' @ pdf_path), [])
                 else (case fst (get_pdf_text (files env) pdf_path False []) of
                         Inl e \<Rightarrow> (CaughtException e, [])
                       | Inr (PageTexts texts) \<Rightarrow> (CaughtException ValueError, [])
                       | Inr (AllText text) \<Rightarrow> redact_detect env pdf_path text))))"

section \<open>Example inputs\<close>

text \<open>A library whose request has a fixed outcome, whose parser knows two texts and
  whose searches find one span; the repair substitutions change nothing and every
  \<open>print\<close> succeeds.\<close>

definition sample_lib :: "py_error + http_response \<Rightarrow> pylib" where
  "sample_lib outcome =
     \<lparr>requests_post = (\<lambda>prompt. outcome),
      json_loads = (\<lambda>s. if s = ''{}'' then Inr (PDict [])
                         else if s = ''[]'' then Inr (PList [])
                         else Inl JSONDecodeError),
      search_code_block = (\<lambda>s. None),
      search_json_object = (\<lambda>s. if s = ''Sorry {oops}'' then Some ''{oops}'' else None),
      sub_trailing_commas = (\<lambda>s. s),
      sub_quoted_keys = (\<lambda>s. s),
      sub_quoted_values = (\<lambda>s. s),
      console_print = (\<lambda>message. None)\<rparr>"

text \<open>A page with two occurrences of a name and one of an address, and a page whose text
  cannot be read; regions are numbered.\<close>

definition sample_page :: "nat pdf_page" where
  "sample_page =
     \<lparr>number = 0,
      get_text = Inr ''Jane Doe, jane@example.com, Jane Doe'',
      search_for = (\<lambda>v. if v = ''Jane Doe'' then [1, 2]
                         else if v = ''jane@example.com'' then [3]
                         else if v = ''J'' then [4, 5, 6]
                         else [])\<rparr>"

definition broken_page :: "nat pdf_page" where
  "broken_page = \<lparr>number = 1, get_text = Inl ''bad page'', search_for = (\<lambda>v. [])\<rparr>"

definition sample_fs :: "nat filesystem" where
  "sample_fs file_path =
     (if file_path = ''doc.pdf'' then Some (Document [sample_page])
      else if file_path = ''broken.pdf'' then Some (Document [sample_page, broken_page])
      else None)"

definition sample_env :: "py_error + http_response \<Rightarrow> nat tool_env" where
  "sample_env outcome =
     \<lparr>llm = sample_lib outcome, check_connection = True, files = sample_fs\<rparr>"

section \<open>Properties of the Value Normalizer\<close>

lemma extend_all_concat: "extend_all m acc = acc @ concat (map snd m)"
  by (induction m acc rule: extend_all.induct) simp_all

lemma remdups_snoc:
  "remdups (ys @ [x]) = remdups (filter (\<lambda>y. y \<noteq> x) ys) @ [x]"
  by (induction ys) auto

lemma unique_loop_first_seen:
  "unique_loop xs (set u) u =
     u @ rev (remdups (rev (filter (\<lambda>v. v \<noteq> [] \<and> v \<notin> set u) xs)))"
proof (induction xs arbitrary: u)
  case Nil
  show ?case by simp
next
  case (Cons x xs)
  show ?case
  proof (cases "x \<noteq> [] \<and> x \<notin> set u")
    case True
    have "unique_loop (x # xs) (set u) u = unique_loop xs (set (u @ [x])) (u @ [x])"
      using True by simp
    also have "\<dots> = (u @ [x]) @
        rev (remdups (rev (filter (\<lambda>v. v \<noteq> [] \<and> v \<notin> set (u @ [x])) xs)))"
      by (rule Cons.IH)
    also have "filter (\<lambda>v. v \<noteq> [] \<and> v \<notin> set (u @ [x])) xs =
        filter (\<lambda>y. y \<noteq> x) (filter (\<lambda>v. v \<noteq> [] \<and> v \<notin> set u) xs)"
      by (auto intro: filter_cong)
    finally show ?thesis
      using True by (simp add: remdups_snoc rev_filter)
  next
    case False
    then show ?thesis
      using Cons.IH [of u] by auto
  qed
qed

lemma post_process_first_seen:
  "post_process_sensitive_data m =
     rev (remdups (rev (filter (\<lambda>v. v \<noteq> []) (concat (map snd m)))))"
  using unique_loop_first_seen [of "concat (map snd m)" "[]"]
  by (simp add: post_process_sensitive_data_def extend_all_concat)

lemma post_process_distinct: "distinct (post_process_sensitive_data m)"
  by (simp add: post_process_first_seen)

lemma post_process_set:
  "set (post_process_sensitive_data m) = {v \<in> set (concat (map snd m)). v \<noteq> []}"
  by (auto simp add: post_process_first_seen)

lemma first_seen_fixpoint:
  "distinct xs \<Longrightarrow> [] \<notin> set xs \<Longrightarrow> rev (remdups (rev (filter (\<lambda>v. v \<noteq> []) xs))) = xs"
proof -
  assume d: "distinct xs" and n: "[] \<notin> set xs"
  have "filter (\<lambda>v. v \<noteq> []) xs = xs"
    using n by (induction xs) auto
  then show ?thesis
    using d by (simp add: distinct_remdups_id)
qed

text \<open>
  C7. Flattening a category map gives a list without duplicates and without empty
  strings; it is the concatenation of the categories' values, in the iteration order of
  the map, with the empty strings dropped and only the first occurrence of every value
  kept. Flattening again any category map whose values, concatenated, are the flattened
  list gives the same list back (so in particular the same set of values).
\<close>

theorem flatten_dedup_idempotent:
  "distinct (post_process_sensitive_data m) \<and>
   [] \<notin> set (post_process_sensitive_data m) \<and>
   post_process_sensitive_data m =
     rev (remdups (rev (filter (\<lambda>v. v \<noteq> []) (concat (map snd m))))) \<and>
   (\<forall>m'. concat (map snd m') = post_process_sensitive_data m \<longrightarrow>
      post_process_sensitive_data m' = post_process_sensitive_data m \<and>
      set (post_process_sensitive_data m') = set (post_process_sensitive_data m))"
proof -
  have d: "distinct (post_process_sensitive_data m)"
    by (rule post_process_distinct)
  have n: "[] \<notin> set (post_process_sensitive_data m)"
    by (simp add: post_process_set)
  have "post_process_sensitive_data m' = post_process_sensitive_data m"
    if "concat (map snd m') = post_process_sensitive_data m" for m'
    using that first_seen_fixpoint [OF d n]
    by (simp add: post_process_first_seen [of m'])
  then show ?thesis
    using d n post_process_first_seen [of m] by auto
qed

theorem flatten_dedup_idempotent_witness:
  "post_process_sensitive_data
     [(''names'', [''Al'', [], ''Bo'']), (''emails'', [''Bo'', ''Al'', ''Cy''])] =
     [''Al'', ''Bo'', ''Cy''] \<and>
   distinct (post_process_sensitive_data
     [(''names'', [''Al'', [], ''Bo'']), (''emails'', [''Bo'', ''Al'', ''Cy''])]) \<and>
   post_process_sensitive_data [(''other_pii'', [''Al'', ''Bo'', ''Cy''])] =
     post_process_sensitive_data
       [(''names'', [''Al'', [], ''Bo'']), (''emails'', [''Bo'', ''Al'', ''Cy''])]"
proof -
  have e: "post_process_sensitive_data
     [(''names'', [''Al'', [], ''Bo'']), (''emails'', [''Bo'', ''Al'', ''Cy''])] =
     [''Al'', ''Bo'', ''Cy'']"
    by (simp add: post_process_sensitive_data_def)
  have c: "concat (map snd [(''other_pii'', [''Al'', ''Bo'', ''Cy''])]) =
     post_process_sensitive_data
       [(''names'', [''Al'', [], ''Bo'']), (''emails'', [''Bo'', ''Al'', ''Cy''])]"
    by (simp add: e)
  show ?thesis
    using flatten_dedup_idempotent
      [of "[(''names'', [''Al'', [], ''Bo'']), (''emails'', [''Bo'', ''Al'', ''Cy''])]"] c e
    by blast
qed

section \<open>Properties of the Masking Reporter\<close>

lemma py_repeat_replicate: "py_repeat c (py_len s - int k) = replicate (length s - k) c"
  by (simp add: py_repeat_def py_len_def nat_diff_distrib')

lemma py_repeat_len: "py_repeat c (py_len s) = replicate (length s) c"
  by (simp add: py_repeat_def py_len_def)

lemma dict_set_absent: "k \<notin> fst ` set al \<Longrightarrow> dict_set k v al = al @ [(k, v)]"
  by (induction al) auto

lemma mask_loop_distinct:
  "distinct (map fst d) \<Longrightarrow> fst ` set d \<inter> fst ` set acc = {} \<Longrightarrow>
   mask_loop d acc = acc @ map (\<lambda>(k, vs). (k, map mask_value vs)) d"
proof (induction d acc rule: mask_loop.induct)
  case (1 acc)
  show ?case by simp
next
  case (2 category vals rest acc)
  have a: "category \<notin> fst ` set acc"
    using "2.prems"(2) by auto
  have "mask_loop rest (dict_set category (map mask_value vals) acc) =
      dict_set category (map mask_value vals) acc @
      map (\<lambda>(k, vs). (k, map mask_value vs)) rest"
  proof (rule "2.IH")
    show "distinct (map fst rest)" using "2.prems"(1) by simp
    show "fst ` set rest \<inter> fst ` set (dict_set category (map mask_value vals) acc) = {}"
      using "2.prems" by (auto simp add: dict_set_absent [OF a])
  qed
  then show ?case
    by (simp add: dict_set_absent [OF a])
qed

lemma mask_sensitive_data_map:
  "distinct (map fst d) \<Longrightarrow>
   mask_sensitive_data d = map (\<lambda>(k, vs). (k, map mask_value vs)) d"
  by (simp add: mask_sensitive_data_def mask_loop_distinct)

lemma mask_sensitive_data_lookup:
  assumes "distinct (map fst d)" and "(c, vs) \<in> set d"
  shows "map_of (mask_sensitive_data d) c = Some (map mask_value vs)"
proof -
  have "distinct (map fst (map (\<lambda>(k, vs). (k, map mask_value vs)) d))"
    using assms(1) by (simp add: comp_def case_prod_unfold)
  moreover have "(c, map mask_value vs) \<in> set (map (\<lambda>(k, vs). (k, map mask_value vs)) d)"
    using assms(2) by force
  ultimately show ?thesis
    using assms(1) by (simp add: mask_sensitive_data_map)
qed

lemma mask_value_short: "length v < 3 \<Longrightarrow> mask_value v = v"
  by (simp add: mask_value_def py_len_def)

lemma generic_mask_small:
  "length v \<le> 4 \<Longrightarrow> generic_mask v = replicate (length v) star"
  by (simp add: generic_mask_def py_len_def py_repeat_def)

lemma generic_mask_long:
  "4 < length v \<Longrightarrow>
   generic_mask v = take 2 v @ replicate (length v - 4) star @ drop (length v - 2) v"
  by (simp add: generic_mask_def py_len_def py_repeat_def nat_diff_distrib')

lemma mask_value_generic:
  "\<not> (CHR ''@'' \<in> set v \<and> CHR ''.'' \<in> set v) \<Longrightarrow> 3 \<le> length v \<Longrightarrow>
   mask_value v = generic_mask v"
  by (auto simp add: mask_value_def py_len_def)

lemma mask_value_generic_small:
  "\<not> (CHR ''@'' \<in> set v \<and> CHR ''.'' \<in> set v) \<Longrightarrow> 3 \<le> length v \<Longrightarrow> length v \<le> 4 \<Longrightarrow>
   mask_value v = replicate (length v) star"
  by (simp add: mask_value_generic generic_mask_small)

lemma mask_value_generic_long:
  "\<not> (CHR ''@'' \<in> set v \<and> CHR ''.'' \<in> set v) \<Longrightarrow> 4 < length v \<Longrightarrow>
   mask_value v = take 2 v @ replicate (length v - 4) star @ drop (length v - 2) v"
  by (simp add: mask_value_generic generic_mask_long)

lemma mask_head_star: "s \<noteq> [] \<Longrightarrow> star \<in> set (mask_head s)"
  by (cases s) (auto simp add: mask_head_def py_len_def py_repeat_def nat_diff_distrib')

lemma split1_recompose:
  "c \<in> set v \<Longrightarrow> v = takeWhile (\<lambda>x. x \<noteq> c) v @ c # tl (dropWhile (\<lambda>x. x \<noteq> c) v)"
proof -
  assume "c \<in> set v"
  then have "dropWhile (\<lambda>x. x \<noteq> c) v \<noteq> []" by (simp add: dropWhile_eq_Nil_conv)
  moreover have "hd (dropWhile (\<lambda>x. x \<noteq> c) v) = c"
    using hd_dropWhile [of "\<lambda>x. x \<noteq> c" v] calculation by auto
  ultimately have "dropWhile (\<lambda>x. x \<noteq> c) v = c # tl (dropWhile (\<lambda>x. x \<noteq> c) v)"
    by (metis list.collapse)
  then show ?thesis
    by (metis takeWhile_dropWhile_id)
qed

lemma rsplit1_recompose:
  assumes "c \<in> set s"
  shows "s = rev (tl (dropWhile (\<lambda>x. x \<noteq> c) (rev s))) @ c # rev (takeWhile (\<lambda>x. x \<noteq> c) (rev s))"
proof -
  have "rev s = takeWhile (\<lambda>x. x \<noteq> c) (rev s) @ c # tl (dropWhile (\<lambda>x. x \<noteq> c) (rev s))"
    using assms split1_recompose [of c "rev s"] by simp
  then have "rev (rev s) = rev (takeWhile (\<lambda>x. x \<noteq> c) (rev s) @ c # tl (dropWhile (\<lambda>x. x \<noteq> c) (rev s)))"
    by simp
  then show ?thesis by simp
qed

lemma email_mask_try_eq:
  assumes "CHR ''@'' \<in> set v"
  shows "email_mask_try v =
     Inr (mask_head (takeWhile (\<lambda>x. x \<noteq> CHR ''@'') v) @ ''@'' @
       (if CHR ''.'' \<in> set (tl (dropWhile (\<lambda>x. x \<noteq> CHR ''@'') v))
        then mask_head (rev (tl (dropWhile (\<lambda>x. x \<noteq> CHR ''.'')
                 (rev (tl (dropWhile (\<lambda>x. x \<noteq> CHR ''@'') v)))))) @ ''.'' @
             rev (takeWhile (\<lambda>x. x \<noteq> CHR ''.'')
                 (rev (tl (dropWhile (\<lambda>x. x \<noteq> CHR ''@'') v))))
        else take 2 (tl (dropWhile (\<lambda>x. x \<noteq> CHR ''@'') v)) @ ''***''))"
  using assms
  by (simp add: email_mask_try_def split1_def unpack2_def rsplit1_def Let_def)

lemma email_mask_try_total:
  assumes "CHR ''@'' \<in> set v"
  shows "\<exists>m. email_mask_try v = Inr m"
  using email_mask_try_eq [OF assms] by blast

lemma email_mask_try_changes:
  assumes at: "CHR ''@'' \<in> set v" and dot: "CHR ''.'' \<in> set v"
    and m: "email_mask_try v = Inr m" and p: "take 2 v \<noteq> ''@.''"
  shows "star \<in> set m"
proof -
  define u where "u = takeWhile (\<lambda>x. x \<noteq> CHR ''@'') v"
  define dm where "dm = tl (dropWhile (\<lambda>x. x \<noteq> CHR ''@'') v)"
  have v: "v = u @ CHR ''@'' # dm"
    unfolding u_def dm_def using at by (rule split1_recompose)
  show ?thesis
  proof (cases "u = []")
    case False
    then have "star \<in> set (mask_head u)" by (rule mask_head_star)
    then show ?thesis
      using m email_mask_try_eq [OF at] unfolding u_def dm_def
      by auto
  next
    case True
    show ?thesis
    proof (cases "CHR ''.'' \<in> set dm")
      case False
      then show ?thesis
        using m email_mask_try_eq [OF at] unfolding u_def dm_def
        by (auto simp add: star_def)
    next
      case dotdm: True
      define dn where "dn = rev (tl (dropWhile (\<lambda>x. x \<noteq> CHR ''.'') (rev dm)))"
      define tld where "tld = rev (takeWhile (\<lambda>x. x \<noteq> CHR ''.'') (rev dm))"
      have dmeq: "dm = dn @ CHR ''.'' # tld"
        unfolding dn_def tld_def using dotdm by (rule rsplit1_recompose)
      have "dn \<noteq> []"
      proof
        assume "dn = []"
        then have "v = CHR ''@'' # CHR ''.'' # tld" using v True dmeq by simp
        then have "take 2 v = ''@.''" by simp
        then show False using p by simp
      qed
      then have "star \<in> set (mask_head dn)" by (rule mask_head_star)
      then show ?thesis
        using m dotdm email_mask_try_eq [OF at] unfolding u_def dm_def dn_def tld_def
        by auto
    qed
  qed
qed

lemma mask_value_differs:
  assumes "3 \<le> length v" and "star \<notin> set v" and "take 2 v \<noteq> ''@.''"
  shows "mask_value v \<noteq> v"
proof (cases "CHR ''@'' \<in> set v \<and> CHR ''.'' \<in> set v")
  case True
  then obtain m where m: "email_mask_try v = Inr m"
    using email_mask_try_total by blast
  then have "star \<in> set m"
    using True assms(3) email_mask_try_changes by blast
  moreover have "mask_value v = m"
    using True m assms(1) by (simp add: mask_value_def py_len_def email_branch_def)
  ultimately show ?thesis using assms(2) by auto
next
  case False
  show ?thesis
  proof (cases "length v \<le> 4")
    case True
    then have "mask_value v = replicate (length v) star"
      using False assms(1) by (simp add: mask_value_generic_small)
    moreover have "star \<in> set (replicate (length v) star)"
      using assms(1) by auto
    ultimately show ?thesis using assms(2) by metis
  next
    case False2: False
    then have "mask_value v = take 2 v @ replicate (length v - 4) star @ drop (length v - 2) v"
      using False by (simp add: mask_value_generic_long)
    moreover have "star \<in> set (take 2 v @ replicate (length v - 4) star @ drop (length v - 2) v)"
      using False2 by simp
    ultimately show ?thesis using assms(2) by metis
  qed
qed


text \<open>
  C1 (as amended). In the report of a category map (a dict, so with distinct keys), the
  entry of every category has one masked form per value, in order. A value shorter than
  three characters is reported unchanged. A value of at least three characters that
  contains no asterisk and does not begin with \<open>@.\<close> is reported in a form that differs
  from the value.
\<close>

theorem mask_never_original:
  assumes "distinct (map fst d)" and "(c, vs) \<in> set d"
  shows "\<exists>ms. map_of (mask_sensitive_data d) c = Some ms \<and> length ms = length vs \<and>
    (\<forall>i<length vs.
       (length (vs ! i) < 3 \<longrightarrow> ms ! i = vs ! i) \<and>
       (3 \<le> length (vs ! i) \<and> star \<notin> set (vs ! i) \<and> take 2 (vs ! i) \<noteq> ''@.'' \<longrightarrow>
          ms ! i \<noteq> vs ! i))"
proof -
  have "map_of (mask_sensitive_data d) c = Some (map mask_value vs)"
    using assms by (rule mask_sensitive_data_lookup)
  moreover have "length (vs ! i) < 3 \<longrightarrow> map mask_value vs ! i = vs ! i"
    if "i < length vs" for i
    using that by (simp add: mask_value_short)
  moreover have "3 \<le> length (vs ! i) \<and> star \<notin> set (vs ! i) \<and> take 2 (vs ! i) \<noteq> ''@.'' \<longrightarrow>
      map mask_value vs ! i \<noteq> vs ! i"
    if "i < length vs" for i
    using that mask_value_differs [of "vs ! i"] by simp
  ultimately show ?thesis by simp
qed

theorem mask_never_original_witness:
  "distinct (map fst [(''names'', [''Al'', ''Jane Doe'']), (''emails'', [''jane@example.com''])]) \<and>
   (''names'', [''Al'', ''Jane Doe'']) \<in>
     set [(''names'', [''Al'', ''Jane Doe'']), (''emails'', [''jane@example.com''])] \<and>
   3 \<le> length ''Jane Doe'' \<and> star \<notin> set ''Jane Doe'' \<and> take 2 ''Jane Doe'' \<noteq> ''@.'' \<and>
   (\<exists>ms. map_of (mask_sensitive_data
        [(''names'', [''Al'', ''Jane Doe'']), (''emails'', [''jane@example.com''])]) ''names'' =
        Some ms \<and> ms ! 0 = ''Al'' \<and> ms ! 1 \<noteq> ''Jane Doe'')"
proof -
  let ?d = "[(''names'', [''Al'', ''Jane Doe'']), (''emails'', [''jane@example.com''])]"
  have h1: "distinct (map fst ?d)" by simp
  have h2: "(''names'', [''Al'', ''Jane Doe'']) \<in> set ?d" by simp
  have h3: "3 \<le> length ''Jane Doe'' \<and> star \<notin> set ''Jane Doe'' \<and> take 2 ''Jane Doe'' \<noteq> ''@.''"
    by (simp add: star_def)
  obtain ms where ms: "map_of (mask_sensitive_data ?d) ''names'' = Some ms"
    and a: "\<forall>i<length [''Al'', ''Jane Doe''].
       (length ([''Al'', ''Jane Doe''] ! i) < 3 \<longrightarrow> ms ! i = [''Al'', ''Jane Doe''] ! i) \<and>
       (3 \<le> length ([''Al'', ''Jane Doe''] ! i) \<and> star \<notin> set ([''Al'', ''Jane Doe''] ! i) \<and>
        take 2 ([''Al'', ''Jane Doe''] ! i) \<noteq> ''@.'' \<longrightarrow> ms ! i \<noteq> [''Al'', ''Jane Doe''] ! i)"
    using mask_never_original [OF h1 h2] by blast
  have "ms ! 0 = ''Al''" using a [rule_format, of 0] by simp
  moreover have "ms ! 1 \<noteq> ''Jane Doe''" using a [rule_format, of 1] h3 by simp
  ultimately show ?thesis using h1 h2 h3 ms by blast
qed

theorem mask_leaks_short_value:
  "1 \<le> length ''Al'' \<and>
   map_of (mask_sensitive_data [(''names'', [''Al''])]) ''names'' = Some [''Al'']"
  by code_simp

lemma split_first_unique:
  assumes "c \<notin> set u"
  shows "takeWhile (\<lambda>x. x \<noteq> c) (u @ c # d) = u"
    and "tl (dropWhile (\<lambda>x. x \<noteq> c) (u @ c # d)) = d"
proof -
  have a: "\<forall>x\<in>set u. x \<noteq> c" using assms by auto
  show "takeWhile (\<lambda>x. x \<noteq> c) (u @ c # d) = u"
    using a by (simp add: takeWhile_append2)
  show "tl (dropWhile (\<lambda>x. x \<noteq> c) (u @ c # d)) = d"
    using a by (simp add: dropWhile_append2)
qed

lemma split_last_unique:
  assumes "c \<notin> set t"
  shows "rev (tl (dropWhile (\<lambda>x. x \<noteq> c) (rev (n @ c # t)))) = n"
    and "rev (takeWhile (\<lambda>x. x \<noteq> c) (rev (n @ c # t))) = t"
proof -
  have r: "rev (n @ c # t) = rev t @ c # rev n" by simp
  have a: "c \<notin> set (rev t)" using assms by simp
  show "rev (tl (dropWhile (\<lambda>x. x \<noteq> c) (rev (n @ c # t)))) = n"
    unfolding r using split_first_unique(2) [OF a, of "rev n"] by simp
  show "rev (takeWhile (\<lambda>x. x \<noteq> c) (rev (n @ c # t))) = t"
    unfolding r using split_first_unique(1) [OF a, of "rev n"] by simp
qed

lemma mask_head_eq:
  "mask_head s =
     (if length s \<le> 2 then replicate (length s) CHR ''*''
      else take 2 s @ replicate (length s - 2) CHR ''*'')"
  by (simp add: mask_head_def py_len_def py_repeat_def star_def nat_diff_distrib')

lemma email_mask_try_dotted:
  assumes "CHR ''@'' \<notin> set u" and "CHR ''.'' \<notin> set t"
  shows "email_mask_try (u @ ''@'' @ n @ ''.'' @ t) =
     Inr (mask_head u @ ''@'' @ mask_head n @ ''.'' @ t)"
proof -
  have at: "CHR ''@'' \<in> set (u @ ''@'' @ n @ ''.'' @ t)" by simp
  have d: "tl (dropWhile (\<lambda>x. x \<noteq> CHR ''@'') (u @ ''@'' @ n @ ''.'' @ t)) = n @ ''.'' @ t"
    using split_first_unique(2) [OF assms(1), of "n @ ''.'' @ t"] by simp
  have w: "takeWhile (\<lambda>x. x \<noteq> CHR ''@'') (u @ ''@'' @ n @ ''.'' @ t) = u"
    using split_first_unique(1) [OF assms(1), of "n @ ''.'' @ t"] by simp
  have n: "rev (tl (dropWhile (\<lambda>x. x \<noteq> CHR ''.'') (rev (n @ ''.'' @ t)))) = n"
    using split_last_unique(1) [OF assms(2), of n] by simp
  have t: "rev (takeWhile (\<lambda>x. x \<noteq> CHR ''.'') (rev (n @ ''.'' @ t))) = t"
    using split_last_unique(2) [OF assms(2), of n] by simp
  have dot: "CHR ''.'' \<in> set (n @ ''.'' @ t)" by simp
  show ?thesis
    unfolding email_mask_try_eq [OF at] d w using n t dot by (simp del: rev_append)
qed

lemma email_mask_try_undotted:
  assumes "CHR ''@'' \<notin> set u" and "CHR ''.'' \<notin> set d"
  shows "email_mask_try (u @ ''@'' @ d) = Inr (mask_head u @ ''@'' @ take 2 d @ ''***'')"
proof -
  have at: "CHR ''@'' \<in> set (u @ ''@'' @ d)" by simp
  have d: "tl (dropWhile (\<lambda>x. x \<noteq> CHR ''@'') (u @ ''@'' @ d)) = d"
    using split_first_unique(2) [OF assms(1), of d] by simp
  have w: "takeWhile (\<lambda>x. x \<noteq> CHR ''@'') (u @ ''@'' @ d) = u"
    using split_first_unique(1) [OF assms(1), of d] by simp
  show ?thesis
    unfolding email_mask_try_eq [OF at] d w using assms(2) by simp
qed

lemma mask_value_email:
  assumes "3 \<le> length v" and "CHR ''@'' \<in> set v" and "CHR ''.'' \<in> set v"
    and "email_mask_try v = Inr m"
  shows "mask_value v = m"
  using assms by (simp add: mask_value_def py_len_def email_branch_def)

text \<open>
  C3 (as amended). In the report of a category map, a value shorter than three characters
  is reported unchanged. A value of at least three characters that does not contain both
  \<open>@\<close> and \<open>.\<close> is reported as asterisks of its own length when its length is 3 or 4,
  and as its first two characters, then asterisks, length minus 4 of them, then its last
  two characters when its length is more than 4. A value of at least three characters that
  contains both \<open>@\<close> and \<open>.\<close> is reported by the email rule: it is split at its first
  \<open>@\<close> into a local part and a domain; the local part is replaced by its masked head
  (all asterisks up to length 2, otherwise its first two characters and then asterisks
  for the rest); when the domain contains a \<open>.\<close>, the domain is split at its last \<open>.\<close>,
  the part before it is replaced by its masked head and the \<open>.\<close> and the part after it
  are kept; when the domain contains no \<open>.\<close>, it is replaced by its first two characters
  and three asterisks.
\<close>

theorem mask_generic_rule:
  assumes "distinct (map fst d)" and "(c, vs) \<in> set d"
  shows "\<exists>ms. map_of (mask_sensitive_data d) c = Some ms \<and> length ms = length vs \<and>
    (\<forall>s. mask_head s =
       (if length s \<le> 2 then replicate (length s) CHR ''*''
        else take 2 s @ replicate (length s - 2) CHR ''*'')) \<and>
    (\<forall>i<length vs.
       (length (vs ! i) < 3 \<longrightarrow> ms ! i = vs ! i) \<and>
       (\<not> (CHR ''@'' \<in> set (vs ! i) \<and> CHR ''.'' \<in> set (vs ! i)) \<longrightarrow>
          (3 \<le> length (vs ! i) \<and> length (vs ! i) \<le> 4 \<longrightarrow>
             ms ! i = replicate (length (vs ! i)) CHR ''*'') \<and>
          (4 < length (vs ! i) \<longrightarrow>
             ms ! i = take 2 (vs ! i) @ replicate (length (vs ! i) - 4) CHR ''*'' @
                      drop (length (vs ! i) - 2) (vs ! i))) \<and>
       (3 \<le> length (vs ! i) \<and> CHR ''.'' \<in> set (vs ! i) \<longrightarrow>
          (\<forall>u n t. vs ! i = u @ ''@'' @ n @ ''.'' @ t \<and> CHR ''@'' \<notin> set u \<and> CHR ''.'' \<notin> set t \<longrightarrow>
             ms ! i = mask_head u @ ''@'' @ mask_head n @ ''.'' @ t) \<and>
          (\<forall>u dm. vs ! i = u @ ''@'' @ dm \<and> CHR ''@'' \<notin> set u \<and> CHR ''.'' \<notin> set dm \<longrightarrow>
             ms ! i = mask_head u @ ''@'' @ take 2 dm @ ''***'')))"
proof -
  have lookup: "map_of (mask_sensitive_data d) c = Some (map mask_value vs)"
    using assms by (rule mask_sensitive_data_lookup)
  have "length (vs ! i) < 3 \<longrightarrow> map mask_value vs ! i = vs ! i"
    if "i < length vs" for i
    using that by (simp add: mask_value_short)
  moreover have "\<not> (CHR ''@'' \<in> set (vs ! i) \<and> CHR ''.'' \<in> set (vs ! i)) \<longrightarrow>
      (3 \<le> length (vs ! i) \<and> length (vs ! i) \<le> 4 \<longrightarrow>
         map mask_value vs ! i = replicate (length (vs ! i)) CHR ''*'') \<and>
      (4 < length (vs ! i) \<longrightarrow>
         map mask_value vs ! i = take 2 (vs ! i) @ replicate (length (vs ! i) - 4) CHR ''*'' @
           drop (length (vs ! i) - 2) (vs ! i))"
    if "i < length vs" for i
    using that mask_value_generic_small [of "vs ! i"] mask_value_generic_long [of "vs ! i"]
    by (simp add: star_def)
  moreover have "3 \<le> length (vs ! i) \<and> CHR ''.'' \<in> set (vs ! i) \<longrightarrow>
      (\<forall>u n t. vs ! i = u @ ''@'' @ n @ ''.'' @ t \<and> CHR ''@'' \<notin> set u \<and> CHR ''.'' \<notin> set t \<longrightarrow>
         map mask_value vs ! i = mask_head u @ ''@'' @ mask_head n @ ''.'' @ t) \<and>
      (\<forall>u dm. vs ! i = u @ ''@'' @ dm \<and> CHR ''@'' \<notin> set u \<and> CHR ''.'' \<notin> set dm \<longrightarrow>
         map mask_value vs ! i = mask_head u @ ''@'' @ take 2 dm @ ''***'')"
    if i: "i < length vs" for i
  proof (intro impI conjI allI)
    fix u n t
    assume l: "3 \<le> length (vs ! i) \<and> CHR ''.'' \<in> set (vs ! i)"
      and e: "vs ! i = u @ ''@'' @ n @ ''.'' @ t \<and> CHR ''@'' \<notin> set u \<and> CHR ''.'' \<notin> set t"
    have at: "CHR ''@'' \<in> set (vs ! i)" using e by simp
    have "email_mask_try (vs ! i) = Inr (mask_head u @ ''@'' @ mask_head n @ ''.'' @ t)"
      using e email_mask_try_dotted [of u t n] by simp
    then have "mask_value (vs ! i) = mask_head u @ ''@'' @ mask_head n @ ''.'' @ t"
      using l at by (intro mask_value_email) simp_all
    then show "map mask_value vs ! i = mask_head u @ ''@'' @ mask_head n @ ''.'' @ t"
      using i by simp
  next
    fix u dm
    assume l: "3 \<le> length (vs ! i) \<and> CHR ''.'' \<in> set (vs ! i)"
      and e: "vs ! i = u @ ''@'' @ dm \<and> CHR ''@'' \<notin> set u \<and> CHR ''.'' \<notin> set dm"
    have at: "CHR ''@'' \<in> set (vs ! i)" using e by simp
    have "email_mask_try (vs ! i) = Inr (mask_head u @ ''@'' @ take 2 dm @ ''***'')"
      using e email_mask_try_undotted [of u dm] by simp
    then have "mask_value (vs ! i) = mask_head u @ ''@'' @ take 2 dm @ ''***''"
      using l at by (intro mask_value_email) simp_all
    then show "map mask_value vs ! i = mask_head u @ ''@'' @ take 2 dm @ ''***''"
      using i by simp
  qed
  ultimately have "\<forall>i<length vs.
       (length (vs ! i) < 3 \<longrightarrow> map mask_value vs ! i = vs ! i) \<and>
       (\<not> (CHR ''@'' \<in> set (vs ! i) \<and> CHR ''.'' \<in> set (vs ! i)) \<longrightarrow>
          (3 \<le> length (vs ! i) \<and> length (vs ! i) \<le> 4 \<longrightarrow>
             map mask_value vs ! i = replicate (length (vs ! i)) CHR ''*'') \<and>
          (4 < length (vs ! i) \<longrightarrow>
             map mask_value vs ! i =
               take 2 (vs ! i) @ replicate (length (vs ! i) - 4) CHR ''*'' @
               drop (length (vs ! i) - 2) (vs ! i))) \<and>
       (3 \<le> length (vs ! i) \<and> CHR ''.'' \<in> set (vs ! i) \<longrightarrow>
          (\<forall>u n t. vs ! i = u @ ''@'' @ n @ ''.'' @ t \<and> CHR ''@'' \<notin> set u \<and> CHR ''.'' \<notin> set t \<longrightarrow>
             map mask_value vs ! i = mask_head u @ ''@'' @ mask_head n @ ''.'' @ t) \<and>
          (\<forall>u dm. vs ! i = u @ ''@'' @ dm \<and> CHR ''@'' \<notin> set u \<and> CHR ''.'' \<notin> set dm \<longrightarrow>
             map mask_value vs ! i = mask_head u @ ''@'' @ take 2 dm @ ''***''))"
    by blast
  moreover have "\<forall>s. mask_head s =
       (if length s \<le> 2 then replicate (length s) CHR ''*''
        else take 2 s @ replicate (length s - 2) CHR ''*'')"
    using mask_head_eq by blast
  moreover have "length (map mask_value vs) = length vs" by simp
  moreover note lookup
  ultimately show ?thesis
    by (intro exI [of _ "map mask_value vs"] conjI)
qed

theorem mask_generic_rule_witness:
  "distinct (map fst [(''ids'', [''7'', ''1234'', ''1234567890'', ''jane@example.com''])]) \<and>
   (''ids'', [''7'', ''1234'', ''1234567890'', ''jane@example.com'']) \<in>
     set [(''ids'', [''7'', ''1234'', ''1234567890'', ''jane@example.com''])] \<and>
   ''jane@example.com'' = ''jane'' @ ''@'' @ ''example'' @ ''.'' @ ''com'' \<and>
   CHR ''@'' \<notin> set ''jane'' \<and> CHR ''.'' \<notin> set ''com'' \<and>
   map_of (mask_sensitive_data [(''ids'', [''7'', ''1234'', ''1234567890'', ''jane@example.com''])])
     ''ids'' = Some [''7'', ''****'', ''12******90'', ''ja**@ex*****.com'']"
proof -
  let ?vs = "[''7'', ''1234'', ''1234567890'', ''jane@example.com'']"
  let ?d = "[(''ids'', ?vs)]"
  have h1: "distinct (map fst ?d)" by simp
  have h2: "(''ids'', ?vs) \<in> set ?d" by simp
  have h3: "''jane@example.com'' = ''jane'' @ ''@'' @ ''example'' @ ''.'' @ ''com'' \<and>
    CHR ''@'' \<notin> set ''jane'' \<and> CHR ''.'' \<notin> set ''com''" by simp
  obtain ms where P: "map_of (mask_sensitive_data ?d) ''ids'' = Some ms \<and>
    length ms = length ?vs \<and>
    (\<forall>s. mask_head s =
       (if length s \<le> 2 then replicate (length s) CHR ''*''
        else take 2 s @ replicate (length s - 2) CHR ''*'')) \<and>
    (\<forall>i<length ?vs.
       (length (?vs ! i) < 3 \<longrightarrow> ms ! i = ?vs ! i) \<and>
       (\<not> (CHR ''@'' \<in> set (?vs ! i) \<and> CHR ''.'' \<in> set (?vs ! i)) \<longrightarrow>
          (3 \<le> length (?vs ! i) \<and> length (?vs ! i) \<le> 4 \<longrightarrow>
             ms ! i = replicate (length (?vs ! i)) CHR ''*'') \<and>
          (4 < length (?vs ! i) \<longrightarrow>
             ms ! i = take 2 (?vs ! i) @ replicate (length (?vs ! i) - 4) CHR ''*'' @
                      drop (length (?vs ! i) - 2) (?vs ! i))) \<and>
       (3 \<le> length (?vs ! i) \<and> CHR ''.'' \<in> set (?vs ! i) \<longrightarrow>
          (\<forall>u n t. ?vs ! i = u @ ''@'' @ n @ ''.'' @ t \<and> CHR ''@'' \<notin> set u \<and> CHR ''.'' \<notin> set t \<longrightarrow>
             ms ! i = mask_head u @ ''@'' @ mask_head n @ ''.'' @ t) \<and>
          (\<forall>u dm. ?vs ! i = u @ ''@'' @ dm \<and> CHR ''@'' \<notin> set u \<and> CHR ''.'' \<notin> set dm \<longrightarrow>
             ms ! i = mask_head u @ ''@'' @ take 2 dm @ ''***'')))"
    using mask_generic_rule [OF h1 h2] by (rule exE)
  note ms = P [THEN conjunct1]
  note len = P [THEN conjunct2, THEN conjunct1]
  note mh = P [THEN conjunct2, THEN conjunct2, THEN conjunct1]
  note a = P [THEN conjunct2, THEN conjunct2, THEN conjunct2]
  have i0: "0 < length ?vs" and i1: "1 < length ?vs" and i2: "2 < length ?vs"
    and i3: "3 < length ?vs" by simp_all
  have e0: "ms ! 0 = ''7''"
    using a [THEN spec, of 0, THEN mp, OF i0, THEN conjunct1] by simp
  have e1: "ms ! 1 = ''****''"
    using a [THEN spec, of 1, THEN mp, OF i1, THEN conjunct2, THEN conjunct1]
    by (simp add: numeral_eq_Suc)
  have e2: "ms ! 2 = ''12******90''"
    using a [THEN spec, of 2, THEN mp, OF i2, THEN conjunct2, THEN conjunct1]
    by (simp add: numeral_eq_Suc)
  have pre: "3 \<le> length (?vs ! 3) \<and> CHR ''.'' \<in> set (?vs ! 3)" by simp
  have dec: "?vs ! 3 = ''jane'' @ ''@'' @ ''example'' @ ''.'' @ ''com'' \<and>
      CHR ''@'' \<notin> set ''jane'' \<and> CHR ''.'' \<notin> set ''com''" by simp
  note q = a [THEN spec, of 3, THEN mp, OF i3, THEN conjunct2, THEN conjunct2, THEN mp, OF pre,
      THEN conjunct1]
  have "ms ! 3 = mask_head ''jane'' @ ''@'' @ mask_head ''example'' @ ''.'' @ ''com''"
    using q [THEN spec, of "''jane''", THEN spec, of "''example''", THEN spec, of "''com''",
        THEN mp, OF dec] .
  then have e3: "ms ! 3 = ''ja**@ex*****.com''"
    by (simp add: mh numeral_eq_Suc)
  have "ms = [ms ! 0, ms ! 1, ms ! 2, ms ! 3]"
    using len by (auto simp add: list_eq_iff_nth_eq less_Suc_eq numeral_eq_Suc)
  then have full: "ms = [''7'', ''****'', ''12******90'', ''ja**@ex*****.com'']"
    using e0 e1 e2 e3 by simp
  have r: "map_of (mask_sensitive_data ?d) ''ids'' =
      Some [''7'', ''****'', ''12******90'', ''ja**@ex*****.com'']"
    unfolding full [symmetric] by (rule ms)
  show ?thesis
    by (intro conjI h1 h2 r) simp_all
qed

theorem mask_generic_rule_counterexample:
  "mask_sensitive_data [(''names'', [''Al'']), (''emails'', [''a@b.c''])] =
     [(''names'', [''Al'']), (''emails'', [''*@*.c''])]"
  by code_simp

section \<open>Properties of the user overrides\<close>

lemma include_loop_unique:
  "include_loop inc sv = unique_loop inc (set sv) sv"
  by (induction inc sv rule: include_loop.induct) simp_all

lemma include_step_first_seen:
  "include_step sv inc = sv @ rev (remdups (rev (filter (\<lambda>y. y \<noteq> [] \<and> y \<notin> set sv) inc)))"
  by (simp add: include_step_def include_loop_unique unique_loop_first_seen)

lemma include_step_present: "y \<in> set sv \<Longrightarrow> include_step sv [y] = sv"
  by (simp add: include_step_def)

lemma include_step_again: "include_step (include_step sv inc) inc = include_step sv inc"
proof -
  have "filter (\<lambda>y. y \<noteq> [] \<and> y \<notin> set (include_step sv inc)) inc = []"
    by (auto simp add: include_step_first_seen filter_empty_conv)
  then show ?thesis
    using include_step_first_seen [of "include_step sv inc" inc] by simp
qed

lemma exclude_step_survivor:
  "v \<in> set (exclude_step lower sv ex) \<longleftrightarrow> v \<in> set sv \<and> (\<forall>x\<in>set ex. lower v \<noteq> lower x)"
  by (cases ex) (auto simp add: exclude_step_def Let_def)

lemma count_list_distinct_one: "distinct xs \<Longrightarrow> x \<in> set xs \<Longrightarrow> count_list xs x = 1"
  by (induction xs) (auto simp add: count_list_0_iff)

text \<open>
  C6 (as amended). Whatever function \<open>str.lower\<close> is, the result of applying the
  overrides is the list of literals that survive the exclusion step followed by the
  appended include entries. A literal survives exactly when its lower-case form differs
  from the lower-case form of every exclude entry, so no survivor matches an exclude entry
  in any casing. The appended entries are the
  include entries that are not empty and not among the survivors by exact comparison, each
  appended once: such an entry occurs exactly once in the result. Including an entry that
  is already in the result, or the same include list again, changes nothing.
\<close>

theorem overrides_exclude_then_include:
  "\<exists>added.
     apply_overrides lower sv ex inc = exclude_step lower sv ex @ added \<and>
     distinct added \<and>
     set added = {y \<in> set inc. y \<noteq> [] \<and> y \<notin> set (exclude_step lower sv ex)} \<and>
     (\<forall>v. v \<in> set (exclude_step lower sv ex) \<longleftrightarrow>
          v \<in> set sv \<and> (\<forall>x\<in>set ex. \<forall>x'. lower x' = lower x \<longrightarrow> lower v \<noteq> lower x')) \<and>
     (\<forall>y\<in>set inc. y \<noteq> [] \<and> y \<notin> set (exclude_step lower sv ex) \<longrightarrow>
          count_list (apply_overrides lower sv ex inc) y = 1) \<and>
     (\<forall>y\<in>set (apply_overrides lower sv ex inc).
          include_step (apply_overrides lower sv ex inc) [y] = apply_overrides lower sv ex inc) \<and>
     include_step (apply_overrides lower sv ex inc) inc = apply_overrides lower sv ex inc"
proof -
  define added where
    "added = rev (remdups (rev (filter (\<lambda>y. y \<noteq> [] \<and> y \<notin> set (exclude_step lower sv ex)) inc)))"
  have r: "apply_overrides lower sv ex inc = exclude_step lower sv ex @ added"
    by (simp add: apply_overrides_def added_def include_step_first_seen)
  have d: "distinct added"
    by (simp add: added_def)
  have st: "set added = {y \<in> set inc. y \<noteq> [] \<and> y \<notin> set (exclude_step lower sv ex)}"
    by (auto simp add: added_def)
  have surv: "\<forall>v. v \<in> set (exclude_step lower sv ex) \<longleftrightarrow>
      v \<in> set sv \<and> (\<forall>x\<in>set ex. \<forall>x'. lower x' = lower x \<longrightarrow> lower v \<noteq> lower x')"
  proof (intro allI iffI conjI ballI impI)
    fix v x x'
    assume v: "v \<in> set (exclude_step lower sv ex)" and x: "x \<in> set ex"
      and c: "lower x' = lower x"
    show "lower v \<noteq> lower x'"
      using v x c by (simp add: exclude_step_survivor)
  next
    fix v
    assume "v \<in> set (exclude_step lower sv ex)"
    then show "v \<in> set sv" by (simp add: exclude_step_survivor)
  next
    fix v
    assume a: "v \<in> set sv \<and>
      (\<forall>x\<in>set ex. \<forall>x'. lower x' = lower x \<longrightarrow> lower v \<noteq> lower x')"
    then have h: "\<forall>x\<in>set ex. lower v \<noteq> lower x" by blast
    from a have m: "v \<in> set sv" by (rule conjunct1)
    show "v \<in> set (exclude_step lower sv ex)"
      using m h by (simp add: exclude_step_survivor)
  qed
  have once: "\<forall>y\<in>set inc. y \<noteq> [] \<and> y \<notin> set (exclude_step lower sv ex) \<longrightarrow>
      count_list (apply_overrides lower sv ex inc) y = 1"
  proof (intro ballI impI)
    fix y
    assume y: "y \<in> set inc" and n: "y \<noteq> [] \<and> y \<notin> set (exclude_step lower sv ex)"
    have "y \<in> set added" using y n st by simp
    then have "count_list added y = 1" using d by (simp add: count_list_distinct_one)
    moreover have "count_list (exclude_step lower sv ex) y = 0" using n by (simp add: count_list_0_iff)
    ultimately show "count_list (apply_overrides lower sv ex inc) y = 1" by (simp add: r)
  qed
  have noop: "\<forall>y\<in>set (apply_overrides lower sv ex inc).
      include_step (apply_overrides lower sv ex inc) [y] = apply_overrides lower sv ex inc"
    by (simp add: include_step_present)
  have again: "include_step (apply_overrides lower sv ex inc) inc = apply_overrides lower sv ex inc"
    by (simp add: apply_overrides_def include_step_again)
  from r d st surv once noop again show ?thesis
    by (intro exI [of _ added] conjI)
qed

theorem overrides_exclude_then_include_witness:
  "apply_overrides py_lower [CHR 0xC9 # ''mile'', ''Bob'', ''Jane Doe'', ''x@y.z'']
     [CHR 0xE9 # ''MILE'', ''JANE doe''] [''bob'', ''Acme'', ''Acme'', ''Bob''] =
     [''Bob'', ''x@y.z'', ''bob'', ''Acme''] \<and>
   exclude_step py_lower [CHR 0xC9 # ''mile'', ''Bob'', ''Jane Doe'', ''x@y.z'']
     [CHR 0xE9 # ''MILE'', ''JANE doe''] = [''Bob'', ''x@y.z''] \<and>
   ''Acme'' \<in> set [''bob'', ''Acme'', ''Acme'', ''Bob''] \<and>
   count_list (apply_overrides py_lower [CHR 0xC9 # ''mile'', ''Bob'', ''Jane Doe'', ''x@y.z'']
     [CHR 0xE9 # ''MILE'', ''JANE doe''] [''bob'', ''Acme'', ''Acme'', ''Bob'']) ''Acme'' = 1"
proof -
  let ?sv = "[CHR 0xC9 # ''mile'', ''Bob'', ''Jane Doe'', ''x@y.z'']"
  let ?ex = "[CHR 0xE9 # ''MILE'', ''JANE doe'']"
  let ?inc = "[''bob'', ''Acme'', ''Acme'', ''Bob'']"
  have e: "exclude_step py_lower ?sv ?ex = [''Bob'', ''x@y.z'']" by code_simp
  have a: "apply_overrides py_lower ?sv ?ex ?inc = [''Bob'', ''x@y.z'', ''bob'', ''Acme'']"
    by code_simp
  have m: "''Acme'' \<in> set ?inc" by simp
  have n: "''Acme'' \<noteq> [] \<and> ''Acme'' \<notin> set (exclude_step py_lower ?sv ?ex)" by (simp add: e)
  have "\<forall>y\<in>set ?inc. y \<noteq> [] \<and> y \<notin> set (exclude_step py_lower ?sv ?ex) \<longrightarrow>
      count_list (apply_overrides py_lower ?sv ?ex ?inc) y = 1"
    using overrides_exclude_then_include [of py_lower ?sv ?ex ?inc] by blast
  then have c: "count_list (apply_overrides py_lower ?sv ?ex ?inc) ''Acme'' = 1"
    using m n by blast
  show ?thesis
    by (intro conjI a e m c)
qed

theorem include_skips_empty_entry:
  "([] :: string) \<in> set [[]] \<and> [] \<notin> set [''Jane Doe''] \<and>
   apply_overrides py_lower [''Jane Doe''] [] [[]] = [''Jane Doe''] \<and>
   count_list (apply_overrides py_lower [''Jane Doe''] [] [[]]) [] = 0"
  by code_simp

section \<open>Properties of validation\<close>

lemma validate_loop_distinct:
  "distinct keys \<Longrightarrow> set keys \<inter> fst ` set acc = {} \<Longrightarrow>
   validate_loop keys data acc =
     acc @ map (\<lambda>k. (k, validate_value (dict_get data k (PList [])))) keys"
proof (induction keys data acc rule: validate_loop.induct)
  case (1 data acc)
  show ?case by simp
next
  case (2 key rest data acc)
  have a: "key \<notin> fst ` set acc"
    using "2.prems"(2) by auto
  have "validate_loop rest data (dict_set key (validate_value (dict_get data key (PList []))) acc) =
      dict_set key (validate_value (dict_get data key (PList []))) acc @
      map (\<lambda>k. (k, validate_value (dict_get data k (PList [])))) rest"
  proof (rule "2.IH")
    show "distinct rest" using "2.prems"(1) by simp
    show "set rest \<inter> fst ` set (dict_set key (validate_value (dict_get data key (PList []))) acc) = {}"
      using "2.prems" by (auto simp add: dict_set_absent [OF a])
  qed
  then show ?case
    by (simp add: dict_set_absent [OF a])
qed

lemma distinct_required_keys: "distinct required_keys"
  by (simp add: required_keys_def)

lemma validate_structure_map:
  "validate_structure data =
     map (\<lambda>k. (k, validate_value (dict_get data k (PList [])))) required_keys"
  by (simp add: validate_structure_def validate_loop_distinct distinct_required_keys)



lemma empty_structure_validate: "validate_structure [] = empty_structure"
  by (simp add: validate_structure_map required_keys_def empty_structure_def dict_get_def)






section \<open>Properties of the Sensitive-Span Detector\<close>


lemma handler_print_succeeds:
  "console_print lib message = None \<Longrightarrow> print_then lib message rest = rest"
  by (simp add: print_then_def)

lemma get_sensitive_data_handled:
  assumes "handler_prints_succeed lib"
    and "get_sensitive_data_body lib text = Inl e"
  shows "get_sensitive_data lib text = Inr empty_structure"
  using assms
  by (simp add: get_sensitive_data_def handler_prints_succeed_def handler_print_succeeds)



lemma get_sensitive_data_post_raises:
  "handler_prints_succeed lib \<Longrightarrow> requests_post lib text = Inl e \<Longrightarrow>
   get_sensitive_data lib text = Inr empty_structure"
  by (rule get_sensitive_data_handled [of lib "text" e])
    (simp_all add: get_sensitive_data_body_def)
















section \<open>Properties of the Redaction Engine\<close>

lemma instance_loop_append:
  "instance_loop insts (hl, rd) = (hl @ insts, rd @ insts)"
  by (induction insts arbitrary: hl rd) simp_all

lemma value_loop_occurrences:
  "value_loop pg vals (n, hl, rd) =
     (n + length (occurrences pg vals), hl @ occurrences pg vals, rd @ occurrences pg vals)"
proof (induction vals arbitrary: n hl rd)
  case Nil
  show ?case by (simp add: occurrences_def)
next
  case (Cons v vals)
  show ?case
  proof (cases "v = [] \<or> length v < 2")
    case True
    then have "\<not> 2 \<le> length v" by auto
    then show ?thesis using True Cons.IH by (simp add: occurrences_def)
  next
    case False
    then have "2 \<le> length v" by auto
    then show ?thesis
      using False Cons.IH by (simp add: instance_loop_append Let_def occurrences_def)
  qed
qed

lemma page_loop_result:
  "page_loop pairs vals st =
     st\<lparr>redacted_pages := redacted_pages st @
          map (\<lambda>(pr, ph). \<lparr>page = number pr + 1,
                 number_of_redactions = length (occurrences pr vals)\<rparr>) pairs,
        total_redactions := total_redactions st +
          sum_list (map (\<lambda>(pr, ph). length (occurrences pr vals)) pairs),
        highlighted := highlighted st @ map (\<lambda>(pr, ph). occurrences pr vals) pairs,
        redacted := redacted st @ map (\<lambda>(pr, ph). occurrences pr vals) pairs\<rparr>"
proof (induction pairs arbitrary: st)
  case Nil
  show ?case by simp
next
  case (Cons pp pairs)
  obtain pr ph where pp: "pp = (pr, ph)" by (cases pp)
  show ?case
    unfolding pp by (simp add: value_loop_occurrences Cons.IH)
qed

lemma apply_redactions_result:
  "apply_redactions doc vals =
     \<lparr>total_pages = length doc,
      redacted_pages = map (\<lambda>pg. \<lparr>page = number pg + 1,
         number_of_redactions = length (occurrences pg vals)\<rparr>) doc,
      total_redactions = sum_list (map (\<lambda>pg. length (occurrences pg vals)) doc),
      highlighted = map (\<lambda>pg. occurrences pg vals) doc,
      redacted = map (\<lambda>pg. occurrences pg vals) doc\<rparr>"
  by (simp add: apply_redactions_def page_loop_result zip_same_conv_map comp_def)

text \<open>
  C9. The engine records one entry per page. On every page the highlight annotations put
  on the preview copy are exactly the occurrences found for the literals of at least two
  characters, one annotation per occurrence, in order; the redaction regions registered
  on the removal copy are the same regions; literals shorter than two characters
  contribute nothing; the page's count is the number of these annotations; and
  \<open>total_redactions\<close> is the sum of the per-page counts.
\<close>

theorem engine_counts_match:
  "total_pages (apply_redactions doc literals) = length doc \<and>
   length (redacted_pages (apply_redactions doc literals)) = length doc \<and>
   length (highlighted (apply_redactions doc literals)) = length doc \<and>
   length (redacted (apply_redactions doc literals)) = length doc \<and>
   (\<forall>i<length doc.
      highlighted (apply_redactions doc literals) ! i = occurrences (doc ! i) literals \<and>
      redacted (apply_redactions doc literals) ! i =
        highlighted (apply_redactions doc literals) ! i \<and>
      number_of_redactions (redacted_pages (apply_redactions doc literals) ! i) =
        length (highlighted (apply_redactions doc literals) ! i) \<and>
      page (redacted_pages (apply_redactions doc literals) ! i) = number (doc ! i) + 1 \<and>
      occurrences (doc ! i) (filter (\<lambda>v. length v < 2) literals) = []) \<and>
   total_redactions (apply_redactions doc literals) =
     sum_list (map number_of_redactions (redacted_pages (apply_redactions doc literals)))"
proof -
  have "occurrences (doc ! i) (filter (\<lambda>v. length v < 2) literals) = []" for i
  proof -
    have "filter (\<lambda>v. 2 \<le> length v) (filter (\<lambda>v. length v < 2) literals) = []"
      by (auto simp add: filter_empty_conv)
    then show ?thesis by (simp add: occurrences_def)
  qed
  then show ?thesis
    by (simp add: apply_redactions_result comp_def)
qed

theorem engine_counts_match_witness:
  "0 < length [sample_page] \<and>
   highlighted (apply_redactions [sample_page] [''Jane Doe'', ''J'', ''jane@example.com'']) ! 0 =
     [1, 2, 3] \<and>
   redacted (apply_redactions [sample_page] [''Jane Doe'', ''J'', ''jane@example.com'']) ! 0 =
     [1, 2, 3] \<and>
   number_of_redactions
     (redacted_pages (apply_redactions [sample_page] [''Jane Doe'', ''J'', ''jane@example.com'']) ! 0)
     = 3 \<and>
   total_redactions (apply_redactions [sample_page] [''Jane Doe'', ''J'', ''jane@example.com'']) = 3"
proof -
  let ?ls = "[''Jane Doe'', ''J'', ''jane@example.com'']"
  let ?st = "apply_redactions [sample_page] ?ls"
  have o: "occurrences ([sample_page] ! 0) ?ls = [1, 2, 3]"
    by (simp add: occurrences_def sample_page_def)
  have i: "0 < length [sample_page]" by simp
  have a: "\<forall>i<length [sample_page].
      highlighted ?st ! i = occurrences ([sample_page] ! i) ?ls \<and>
      redacted ?st ! i = highlighted ?st ! i \<and>
      number_of_redactions (redacted_pages ?st ! i) = length (highlighted ?st ! i) \<and>
      page (redacted_pages ?st ! i) = number ([sample_page] ! i) + 1 \<and>
      occurrences ([sample_page] ! i) (filter (\<lambda>v. length v < 2) ?ls) = []"
    and l: "length (redacted_pages ?st) = length [sample_page]"
    and t: "total_redactions ?st = sum_list (map number_of_redactions (redacted_pages ?st))"
    using engine_counts_match [of "[sample_page]" ?ls] by blast+
  have h: "highlighted ?st ! 0 = [1, 2, 3]" using a i o by simp
  have r: "redacted ?st ! 0 = [1, 2, 3]" using a i h by simp
  have n: "number_of_redactions (redacted_pages ?st ! 0) = 3" using a i h by simp
  obtain x where x: "redacted_pages ?st = [x]"
    using l by (cases "redacted_pages ?st") simp_all
  have "number_of_redactions x = 3" using n by (simp add: x)
  then have "sum_list (map number_of_redactions (redacted_pages ?st)) = 3"
    by (simp add: x)
  then show ?thesis using i h r n t by simp
qed

section \<open>Properties of the Text Extractor\<close>

lemma get_pdf_text_not_found_iff:
  "(\<exists>msg. fst (get_pdf_text fs file_path page_chunks open_docs) = Inl (FileNotFoundError msg)) \<longleftrightarrow>
   fs file_path = None"
  by (auto simp add: get_pdf_text_def Let_def split: option.split pdf_file.split sum.split)

lemma get_pdf_text_not_found_unopened:
  "fs file_path = None \<Longrightarrow> snd (get_pdf_text fs file_path page_chunks open_docs) = open_docs"
  by (simp add: get_pdf_text_def)

lemma get_pdf_text_failure_wrapped:
  "fs file_path \<noteq> None \<Longrightarrow> fst (get_pdf_text fs file_path page_chunks open_docs) = Inl e \<Longrightarrow>
   \<exists>msg. e = WrappedException (''Error processing PDF: '' @ msg)"
  by (auto simp add: get_pdf_text_def Let_def split: option.splits pdf_file.splits sum.splits
      if_splits)

lemma get_pdf_text_success_closes:
  "fst (get_pdf_text fs file_path page_chunks open_docs) = Inr t \<Longrightarrow>
   file_path \<notin> set open_docs \<Longrightarrow>
   snd (get_pdf_text fs file_path page_chunks open_docs) = open_docs"
  by (auto simp add: get_pdf_text_def Let_def remove1_append
      split: option.splits pdf_file.splits sum.splits if_splits)

lemma get_pdf_text_failure_leaves_open:
  "fs file_path = Some (Document doc) \<Longrightarrow>
   fst (get_pdf_text fs file_path page_chunks open_docs) = Inl e \<Longrightarrow>
   snd (get_pdf_text fs file_path page_chunks open_docs) = open_docs @ [file_path]"
  by (auto simp add: get_pdf_text_def Let_def split: sum.splits if_splits)

lemma get_pdf_text_all_text:
  "fst (get_pdf_text fs file_path False open_docs) \<noteq> Inr (PageTexts texts)"
  by (auto simp add: get_pdf_text_def Let_def split: option.splits pdf_file.splits sum.splits)

text \<open>
  C10. For a file that exists and opens, and whose second page cannot be read, the
  extractor raises the wrapping exception and the document it opened is still open when
  it returns, in both modes.
\<close>

theorem extractor_leaves_document_open:
  "get_pdf_text sample_fs ''broken.pdf'' False [] =
     (Inl (WrappedException ''Error processing PDF: bad page''), [''broken.pdf'']) \<and>
   get_pdf_text sample_fs ''broken.pdf'' True [] =
     (Inl (WrappedException ''Error processing PDF: bad page''), [''broken.pdf''])"
  by (simp add: get_pdf_text_def sample_fs_def sample_page_def broken_page_def)

section \<open>Properties of the \<open>redact_pdf\<close> tool\<close>

lemma redact_pdf_timeout:
  assumes "check_connection env" and "pdf_path \<noteq> []"
    and "fst (get_pdf_text (files env) pdf_path False []) = Inr (AllText t)"
    and "requests_post (llm env) t = Inl Timeout"
    and "handler_prints_succeed (llm env)"
  shows "redact_pdf env (Some pdf_path) =
     (NoSensitiveData ''No sensitive data detected, nothing to redact'', [])"
proof -
  have f: "files env pdf_path \<noteq> None"
    using assms(3) get_pdf_text_not_found_iff [of "files env" pdf_path False "[]"] by auto
  have g: "get_sensitive_data (llm env) t = Inr empty_structure"
    using assms(5,4) by (rule get_sensitive_data_post_raises)
  have e: "list_all (\<lambda>(k, v). length v = 0) empty_structure" "length empty_structure \<noteq> 0"
    by (simp_all add: empty_structure_def)
  show ?thesis
    using assms(1-3) f g e
    by (simp add: redact_pdf_def redact_detect_def redact_detected_def)
qed

text \<open>
  C8. With a reachable endpoint and a readable document, a detection request that times
  out makes \<open>redact_pdf\<close> answer with status \<open>no_sensitive_data\<close> and write no artifact;
  this is the very answer it gives when the model replies with an object that holds no
  sensitive value.
\<close>

theorem timeout_reported_as_no_data:
  "redact_pdf (sample_env (Inl Timeout)) (Some ''doc.pdf'') =
     (NoSensitiveData ''No sensitive data detected, nothing to redact'', []) \<and>
   redact_pdf (sample_env (Inr (Response 200 (Inr (PDict [(''response'', PDict [])])))))
     (Some ''doc.pdf'') =
     redact_pdf (sample_env (Inl Timeout)) (Some ''doc.pdf'')"
proof -
  have t: "fst (get_pdf_text sample_fs ''doc.pdf'' False []) =
      Inr (AllText ''Jane Doe, jane@example.com, Jane Doe'')"
    by (simp add: get_pdf_text_def sample_fs_def sample_page_def)
  have a: "redact_pdf (sample_env (Inl Timeout)) (Some ''doc.pdf'') =
     (NoSensitiveData ''No sensitive data detected, nothing to redact'', [])"
    using t
    by (intro redact_pdf_timeout)
      (simp_all add: sample_env_def sample_lib_def handler_prints_succeed_def)
  let ?ok = "Inr (Response 200 (Inr (PDict [(''response'', PDict [])])))"
  have g: "get_sensitive_data (sample_lib ?ok) ''Jane Doe, jane@example.com, Jane Doe'' =
      Inr empty_structure"
    by (simp add: get_sensitive_data_def get_sensitive_data_body_def sample_lib_def dict_get_def
        empty_structure_validate)
  have e: "list_all (\<lambda>(k, v). length v = 0) empty_structure" "length empty_structure \<noteq> 0"
    by (simp_all add: empty_structure_def)
  have f: "sample_fs ''doc.pdf'' \<noteq> None" by (simp add: sample_fs_def)
  have b: "redact_pdf (sample_env ?ok) (Some ''doc.pdf'') =
     (NoSensitiveData ''No sensitive data detected, nothing to redact'', [])"
    using t g e f
    by (simp add: redact_pdf_def redact_detect_def redact_detected_def sample_env_def)
  show ?thesis using a b by simp
qed


end
